theory Spec2Isabelle
  imports Main "HOL-Library.Sublist"
begin

section \<open>Python strings\<close>

text \<open>
  A Python \<open>str\<close> is modelled as a \<open>string\<close> whose characters are read as the code
  points 0 to 255. For these code points \<open>str.isspace\<close> holds of exactly twelve
  characters, and \<open>str.lower\<close> maps a character to one character: it adds 32 to
  \<open>A\<close>..\<open>Z\<close> and to the capital letters 192..222 other than the multiplication
  sign 215, and leaves every other character as it is.
\<close>

definition isspace :: "char \<Rightarrow> bool" where
  "isspace c = (c \<in> set [CHR 0x09, CHR 0x0A, CHR 0x0B, CHR 0x0C, CHR 0x0D,
                          CHR 0x1C, CHR 0x1D, CHR 0x1E, CHR 0x1F, CHR 0x20,
                          CHR 0x85, CHR 0xA0])"

definition lower_char :: "char \<Rightarrow> char" where
  "lower_char c =
     (let n = (of_char c :: nat)
      in if (65 \<le> n \<and> n \<le> 90) \<or> (192 \<le> n \<and> n \<le> 222 \<and> n \<noteq> 215)
         then char_of (n + 32) else c)"

text \<open>\<open>s.lower()\<close>\<close>

definition py_lower :: "string \<Rightarrow> string" where
  "py_lower s = map lower_char s"

text \<open>\<open>s.strip()\<close>: whitespace is removed at both ends.\<close>

definition py_strip :: "string \<Rightarrow> string" where
  "py_strip s = rev (dropWhile isspace (rev (dropWhile isspace s)))"

text \<open>
  \<open>s.replace(old, new)\<close>: the occurrences of \<open>old\<close> are found from left to right,
  the search resuming after each one, and every one of them is replaced. With an empty
  \<open>old\<close>, \<open>new\<close> is put before every character and at the end.
\<close>

fun py_replace :: "string \<Rightarrow> string \<Rightarrow> string \<Rightarrow> string" where
  "py_replace old new [] = (if old = [] then new else [])"
| "py_replace old new (c # cs) =
     (if old = [] then new @ c # py_replace old new cs
      else if prefix old (c # cs)
        then new @ py_replace old new (drop (length old) (c # cs))
        else c # py_replace old new cs)"

text \<open>
  \<open>s.split()\<close> with no separator: the maximal runs of characters that are not
  whitespace, in order; no empty string is ever a member.
\<close>

function py_split :: "string \<Rightarrow> string list" where
  "py_split s =
     (case dropWhile isspace s of
        [] \<Rightarrow> []
      | c # cs \<Rightarrow>
          takeWhile (\<lambda>x. \<not> isspace x) (c # cs)
            # py_split (dropWhile (\<lambda>x. \<not> isspace x) (c # cs)))"
  by pat_completeness auto
termination
proof (relation "measure length")
  show "wf (measure length)" by simp
next
  fix s :: string and c cs
  assume d: "dropWhile isspace s = c # cs"
  have "\<not> isspace c"
    using d hd_dropWhile [of isspace s] by auto
  then have "length (dropWhile (\<lambda>x. \<not> isspace x) (c # cs)) \<le> length cs"
    by (simp add: length_dropWhile_le)
  moreover have "length (c # cs) \<le> length s"
    using length_dropWhile_le [of isspace s] d by simp
  ultimately show "(dropWhile (\<lambda>x. \<not> isspace x) (c # cs), s) \<in> measure length"
    by simp
qed

declare py_split.simps [simp del]

text \<open>The exceptions of the modelled code, by the place that raises them.\<close>

datatype py_exception =
    RequestError    \<comment> \<open>\<open>requests.post\<close> or \<open>requests.get\<close>: no connection, timeout\<close>
  | ResponseError   \<comment> \<open>\<open>response.json()['response']\<close>: no JSON, no such entry, not a text\<close>
  | IndexError
  | KeyError

text \<open>\<open>xs[i]\<close> for an index that is not negative.\<close>

definition py_getitem :: "'a list \<Rightarrow> nat \<Rightarrow> py_exception + 'a" where
  "py_getitem xs i = (if i < length xs then Inr (xs ! i) else Inl IndexError)"

section \<open>The categories and the normalisation of a model response\<close>

definition CATEGORIES :: "string list" where
  "CATEGORIES =
     [''history'', ''science'', ''mathematics'', ''literature'', ''technology'',
      ''business'', ''health_medicine'', ''geography'', ''arts'', ''sports'', ''law'',
      ''psychology'', ''philosophy'', ''education'', ''cooking_food'', ''travel'',
      ''entertainment'', ''language'', ''general_knowledge'', ''creative_writing'',
      ''other'']"

text \<open>
  The statements that turn the text of a response into a category. They stand twice in
  the source with the same text, in \<open>classify_instruction\<close> and in the retry loop of
  \<open>classify_alpaca_dataset\<close>:
  \<^verbatim>\<open>
  category = response.json()['response'].strip().lower()
  category = category.replace("category:", "").strip()
  category = category.split()[0] if category.split() else "other"
  if category not in CATEGORIES:
      category = "other"
  \<close>
  \<open>raw\<close> is the text \<open>response.json()['response']\<close>.
\<close>

definition normalize_label :: "string \<Rightarrow> py_exception + string" where
  "normalize_label raw =
     (let category = py_lower (py_strip raw);
          category = py_strip (py_replace ''category:'' [] category)
      in case (if py_split category \<noteq> [] then py_getitem (py_split category) 0
               else Inr ''other'') of
           Inl e \<Rightarrow> Inl e
         | Inr category \<Rightarrow>
             Inr (if category \<notin> set CATEGORIES then ''other'' else category))"

text \<open>
  \<open>classify_instruction\<close>: \<open>reply\<close> is what \<open>requests.post(...).json()['response']\<close>
  gives, a text or an exception; any exception of the body is caught and answered
  with \<open>"other"\<close>.
\<close>

definition classify_instruction :: "py_exception + string \<Rightarrow> string" where
  "classify_instruction reply =
     (case reply of
        Inl e \<Rightarrow> ''other''
      | Inr raw \<Rightarrow> (case normalize_label raw of Inl e \<Rightarrow> ''other'' | Inr category \<Rightarrow> category))"

section \<open>Records, requests and the state of a run\<close>

text \<open>
  An example of the dataset has the entries \<open>instruction\<close>, \<open>input\<close> and \<open>output\<close>
  (the field \<open>output_text\<close>, as \<open>output\<close> is a keyword here);
  an entry of \<open>results\<close> has these and \<open>category\<close>. The variable \<open>category\<close> starts
  as \<open>None\<close>, so the entry is an optional text.
\<close>

record instruction_record =
  instruction :: string
  input :: string
  output_text :: string

record classified_record = instruction_record +
  category :: "string option"

text \<open>
  What one \<open>requests.post\<close> of the retry loop sends that varies or is named by the
  claims: the model, the prompt and the timeout. The other entries are constants
  (\<open>stream\<close> false, temperature 0.1, \<open>num_predict\<close> 10).
\<close>

record request =
  model :: string
  prompt :: string
  timeout :: nat

text \<open>
  The endpoint is outside the program: a state \<open>'w\<close> and a function \<open>post\<close> that,
  given the state and a request, gives what \<open>requests.post(...).json()['response']\<close>
  evaluates to (a text, or the exception raised on the way) and the next state.

  The state of a run holds the variables of \<open>classify_alpaca_dataset\<close>
  (\<open>results\<close>, \<open>category_counts\<close>, \<open>failed_count\<close>) and what the run did to the
  outside: \<open>calls\<close>, the requests sent in order, each with the outcome of the
  \<open>try\<close> body it belongs to (the category assigned, or the exception caught), and
  \<open>files\<close>, the files written in order, each with its name and the list that was
  dumped into it. Console output is not modelled, and writing a file is taken to succeed.
\<close>

type_synonym 'w endpoint = "'w \<Rightarrow> request \<Rightarrow> (py_exception + string) \<times> 'w"

record 'w run_state =
  world :: 'w
  calls :: "(request \<times> (py_exception + string)) list"
  files :: "(string \<times> classified_record list) list"
  results :: "classified_record list"
  category_counts :: "string option \<Rightarrow> nat"
  failed_count :: nat

text \<open>
  The state in which \<open>classify_alpaca_dataset\<close> starts: \<open>results = []\<close>, an empty
  \<open>Counter\<close>, \<open>failed_count = 0\<close>; nothing sent, nothing written.
\<close>

definition initial_state :: "'w \<Rightarrow> 'w run_state" where
  "initial_state w =
     \<lparr>world = w, calls = [], files = [], results = [],
      category_counts = (\<lambda>c. 0), failed_count = 0\<rparr>"

text \<open>\<open>sep.join(xs)\<close>\<close>

fun py_join :: "string \<Rightarrow> string list \<Rightarrow> string" where
  "py_join sep [] = []"
| "py_join sep [x] = x"
| "py_join sep (x # y # ys) = x @ sep @ py_join sep (y # ys)"

text \<open>\<open>str(n)\<close> for an integer that is not negative.\<close>

definition digit_char :: "nat \<Rightarrow> char" where
  "digit_char d = char_of (48 + d)"

function py_str :: "nat \<Rightarrow> string" where
  "py_str n = (if n < 10 then [digit_char n] else py_str (n div 10) @ [digit_char (n mod 10)])"
  by pat_completeness auto
termination
  by (relation "measure (\<lambda>n. n)") auto

declare py_str.simps [simp del]

text \<open>The prompt of the retry loop, an f-string over three lines and two empty ones.\<close>

definition build_prompt :: "instruction_record \<Rightarrow> string" where
  "build_prompt example =
     ''Classify into ONE category: '' @ py_join '', '' CATEGORIES @ [CHR 0x0A, CHR 0x0A]
     @ ''Instruction: '' @ instruction example @ [CHR 0x0A]
     @ (if input example \<noteq> [] then ''Input: '' @ input example else [])
     @ [CHR 0x0A, CHR 0x0A] @ ''Category:''"

text \<open>
  The request that the retry loop sends for its \<open>k\<close>-th attempt, counted from 1:
  \<open>timeout_val = 60 * (attempt + 1)\<close> with \<open>attempt = k - 1\<close>.
\<close>

definition attempt_request :: "instruction_record \<Rightarrow> nat \<Rightarrow> request" where
  "attempt_request example k =
     \<lparr>model = ''qwen2.5:3b'', prompt = build_prompt example, timeout = 60 * k\<rparr>"

section \<open>The retry loop\<close>

definition max_retries :: nat where
  "max_retries = 3"

text \<open>
  \<^verbatim>\<open>
  for attempt in range(max_retries):
      try:
          timeout_val = 60 * (attempt + 1)
          response = requests.post(..., timeout=timeout_val)
          category = <the normalisation of response.json()['response']>
          break
      except Exception as e:
          if attempt == max_retries - 1:
              category = "other"
              failed_count += 1
          else:
              print(...)
  \<close>
  The list argument is what is left of \<open>range(max_retries)\<close>. The first assignment to
  \<open>category\<close> in the \<open>try\<close> body is the last statement of it that can raise, so a
  caught exception leaves \<open>category\<close> as it was. The variable \<open>category\<close> is
  \<open>cat\<close> here, \<open>category\<close> being the field of a classified record.
\<close>

fun retry_loop ::
  "'w endpoint \<Rightarrow> instruction_record \<Rightarrow> nat list \<Rightarrow> string option \<times> 'w run_state
     \<Rightarrow> string option \<times> 'w run_state" where
  "retry_loop post example [] (cat, st) = (cat, st)"
| "retry_loop post example (attempt # rest) (cat, st) =
     (let timeout_val = 60 * (attempt + 1);
          req = \<lparr>model = ''qwen2.5:3b'', prompt = build_prompt example, timeout = timeout_val\<rparr>;
          (reply, w) = post (world st) req;
          outcome = (case reply of Inl e \<Rightarrow> Inl e | Inr raw \<Rightarrow> normalize_label raw);
          st = st\<lparr>world := w, calls := calls st @ [(req, outcome)]\<rparr>
      in case outcome of
           Inr c \<Rightarrow> (Some c, st)
         | Inl e \<Rightarrow>
             if attempt = max_retries - 1
             then retry_loop post example rest
                    (Some ''other'', st\<lparr>failed_count := failed_count st + 1\<rparr>)
             else retry_loop post example rest (cat, st))"

text \<open>The retry loop of one example, from \<open>category = None\<close>.\<close>

definition classify_record ::
  "'w endpoint \<Rightarrow> instruction_record \<Rightarrow> 'w run_state \<Rightarrow> string option \<times> 'w run_state" where
  "classify_record post example st = retry_loop post example [0..<max_retries] (None, st)"

section \<open>The batch\<close>

definition checkpoint_name :: "nat \<Rightarrow> string" where
  "checkpoint_name n = ''alpaca_categorized_checkpoint_'' @ py_str n @ ''.json''"

definition final_name :: string where
  "final_name = ''alpaca_categorized_final.json''"

definition category_file_name :: "string \<Rightarrow> string" where
  "category_file_name c = ''alpaca_'' @ c @ ''.json''"

text \<open>
  The body of the loop over \<open>enumerate(dataset['train'])\<close> for the example at index
  \<open>i\<close>: the retry loop, the append to \<open>results\<close>, the count, and the checkpoint
  when \<open>(i + 1) % 500 == 0\<close>.
\<close>

definition process_example ::
  "'w endpoint \<Rightarrow> nat \<Rightarrow> instruction_record \<Rightarrow> 'w run_state \<Rightarrow> 'w run_state" where
  "process_example post i example st =
     (let (c, st) = classify_record post example st;
          st = st\<lparr>results := results st @
                 [\<lparr>instruction = instruction example, input = input example,
                   output_text = output_text example, category = c\<rparr>]\<rparr>;
          st = st\<lparr>category_counts := (category_counts st)(c := category_counts st c + 1)\<rparr>
      in if (i + 1) mod 500 = 0
         then st\<lparr>files := files st @ [(checkpoint_name (i + 1), results st)]\<rparr>
         else st)"

fun batch_loop ::
  "'w endpoint \<Rightarrow> nat \<Rightarrow> instruction_record list \<Rightarrow> 'w run_state \<Rightarrow> 'w run_state" where
  "batch_loop post i [] st = st"
| "batch_loop post i (example # rest) st =
     batch_loop post (Suc i) rest (process_example post i example st)"

text \<open>
  \<open>categorized_data[key].append(item)\<close> on a dict kept as the list of its entries in
  insertion order; a key that is absent raises \<open>KeyError\<close>, and \<open>None\<close> is never a key.
\<close>

fun dict_append ::
  "(string \<times> 'a list) list \<Rightarrow> string \<Rightarrow> 'a \<Rightarrow> py_exception + (string \<times> 'a list) list" where
  "dict_append [] k x = Inl KeyError"
| "dict_append ((k', items) # d) k x =
     (if k' = k then Inr ((k', items @ [x]) # d)
      else (case dict_append d k x of
              Inl e \<Rightarrow> Inl e
            | Inr d' \<Rightarrow> Inr ((k', items) # d')))"

text \<open>
  \<^verbatim>\<open>
  for item in results:
      categorized_data[item['category']].append(item)
  \<close>
\<close>

fun group_items ::
  "(string \<times> classified_record list) list \<Rightarrow> classified_record list
     \<Rightarrow> py_exception + (string \<times> classified_record list) list" where
  "group_items d [] = Inr d"
| "group_items d (item # items) =
     (case (case category item of None \<Rightarrow> Inl KeyError | Some k \<Rightarrow> dict_append d k item) of
        Inl e \<Rightarrow> Inl e
      | Inr d' \<Rightarrow> group_items d' items)"

text \<open>
  \<^verbatim>\<open>
  for category, items in categorized_data.items():
      if items:
          with open(f'alpaca_{category}.json', 'w') as f:
              json.dump(items, f, indent=2)
  \<close>
\<close>

definition category_files ::
  "(string \<times> classified_record list) list \<Rightarrow> (string \<times> classified_record list) list" where
  "category_files d =
     map (\<lambda>(c, items). (category_file_name c, items)) (filter (\<lambda>(c, items). items \<noteq> []) d)"

text \<open>
  \<open>classify_alpaca_dataset\<close>, the dataset loaded: the loop; the final file; the dict
  \<open>{cat: [] for cat in CATEGORIES}\<close> filled from \<open>results\<close>; one file for every
  category whose list is not empty. It returns \<open>results\<close>, or raises what the
  grouping raised.
\<close>

definition classify_alpaca_dataset ::
  "'w endpoint \<Rightarrow> instruction_record list \<Rightarrow> 'w
     \<Rightarrow> (py_exception + classified_record list) \<times> 'w run_state" where
  "classify_alpaca_dataset post dataset w =
     (let st = batch_loop post 0 dataset (initial_state w);
          st = st\<lparr>files := files st @ [(final_name, results st)]\<rparr>
      in case group_items (map (\<lambda>cat. (cat, [])) CATEGORIES) (results st) of
           Inl e \<Rightarrow> (Inl e, st)
         | Inr categorized_data \<Rightarrow>
             (Inr (results st), st\<lparr>files := files st @ category_files categorized_data\<rparr>))"

section \<open>The program\<close>

text \<open>
  \<^verbatim>\<open>
  try:
      response = requests.get('http://localhost:11434/api/tags')
  except:
      ...
      exit(1)
  results = classify_alpaca_dataset()
  \<close>
  \<open>probe\<close> is the \<open>requests.get\<close>: whether it raised, and the next state of the
  endpoint. The model ends where \<open>classify_alpaca_dataset\<close> returns; the reporting
  passes that follow read the files written and are not modelled.
\<close>

datatype 'a py_run = SystemExit nat | Raised py_exception | Returned 'a

definition main ::
  "('w \<Rightarrow> (py_exception + unit) \<times> 'w) \<Rightarrow> 'w endpoint \<Rightarrow> instruction_record list \<Rightarrow> 'w
     \<Rightarrow> classified_record list py_run \<times> 'w run_state" where
  "main probe post dataset w =
     (case probe w of
        (Inl e, w') \<Rightarrow>
          (SystemExit 1, initial_state w')
      | (Inr u, w') \<Rightarrow>
          (case classify_alpaca_dataset post dataset w' of
             (Inl e, st) \<Rightarrow> (Raised e, st)
           | (Inr rs, st) \<Rightarrow> (Returned rs, st)))"

text \<open>
  An endpoint for examples: its state is the list of the replies still to come, one
  taken by each request; when none is left the request fails.
\<close>

fun scripted :: "(py_exception + string) list endpoint" where
  "scripted [] req = (Inl RequestError, [])"
| "scripted (r # rs) req = (r, rs)"

text \<open>An example of the dataset, for the runs on \<open>scripted\<close>.\<close>

definition sample :: instruction_record where
  "sample = \<lparr>instruction = ''Name a court'', input = [], output_text = ''The Hague''\<rparr>"

section \<open>The normaliser as the specification words it\<close>

text \<open>The first whitespace-delimited token of a text; empty when the text has none.\<close>

definition first_token :: "string \<Rightarrow> string" where
  "first_token s = takeWhile (\<lambda>x. \<not> isspace x) (dropWhile isspace s)"

text \<open>
  Section 4.1 of the specification: lowercase and trim the string; strip a literal
  leading marker token (the word "category" plus separator) if present; take only the
  first whitespace-delimited token of what remains; if the resulting token is not a
  member of the closed Category set, or if trimming leaves an empty string, return the
  fallback category. This definition follows those words, not the source.
\<close>

definition spec_normalize :: "string \<Rightarrow> string" where
  "spec_normalize raw =
     (let s = py_strip (py_lower raw);
          s = (if prefix ''category:'' s then drop (length ''category:'') s else s);
          token = first_token s
      in if token \<noteq> [] \<and> token \<in> set CATEGORIES then token else ''other'')"

section \<open>Properties of the string functions\<close>

lemma py_split_Nil_iff: "py_split s = [] \<longleftrightarrow> dropWhile isspace s = []"
  by (subst py_split.simps) (cases "dropWhile isspace s"; simp del: dropWhile_eq_Nil_conv)

lemma py_split_first:
  "dropWhile isspace s \<noteq> [] \<Longrightarrow> py_split s ! 0 = first_token s"
  by (subst py_split.simps)
     (cases "dropWhile isspace s"; simp add: first_token_def del: dropWhile_eq_Nil_conv)

lemma first_token_Nil: "dropWhile isspace s = [] \<Longrightarrow> first_token s = []"
  unfolding first_token_def by (simp del: dropWhile_eq_Nil_conv)

lemma takeWhile_append_all:
  "\<forall>x \<in> set b. \<not> P x \<Longrightarrow> takeWhile P (a @ b) = takeWhile P a"
proof (induction a)
  case Nil
  then show ?case by (cases b) auto
next
  case (Cons x a)
  then show ?case by simp
qed

lemma rstrip_decomp:
  "rev (dropWhile P (rev t)) @ rev (takeWhile P (rev t)) = t"
proof -
  have "rev (takeWhile P (rev t) @ dropWhile P (rev t)) = rev (rev t)"
    by (simp only: takeWhile_dropWhile_id)
  then show ?thesis by (simp only: rev_append rev_rev_ident)
qed

lemma takeWhile_rstrip:
  "takeWhile (\<lambda>x. \<not> P x) (rev (dropWhile P (rev t))) = takeWhile (\<lambda>x. \<not> P x) t"
proof -
  have "\<forall>x \<in> set (rev (takeWhile P (rev t))). \<not> \<not> P x"
    by (auto dest: set_takeWhileD)
  from takeWhile_append_all [OF this, of "rev (dropWhile P (rev t))"]
  show ?thesis by (simp only: rstrip_decomp)
qed

lemma dropWhile_snoc_keep:
  "\<not> P c \<Longrightarrow> dropWhile P (xs @ [c]) = dropWhile P xs @ [c]"
  by (induction xs) simp_all

lemma dropWhile_rstrip:
  "dropWhile P (rev (dropWhile P (rev (dropWhile P s)))) = rev (dropWhile P (rev (dropWhile P s)))"
proof (cases "dropWhile P s")
  case Nil
  then show ?thesis by (simp del: dropWhile_eq_Nil_conv)
next
  case (Cons c cs)
  then have c: "\<not> P c" using hd_dropWhile [of P s] by auto
  show ?thesis
    unfolding Cons using c by (simp add: dropWhile_snoc_keep)
qed

lemma first_token_strip: "first_token (py_strip s) = first_token s"
  unfolding first_token_def py_strip_def
  by (simp only: dropWhile_rstrip takeWhile_rstrip)


lemma isspace_of_char:
  "isspace c \<longleftrightarrow> (of_char c :: nat) \<in> {9, 10, 11, 12, 13, 28, 29, 30, 31, 32, 133, 160}"
proof -
  have "isspace c \<longleftrightarrow> (of_char c :: nat) \<in> of_char ` set [CHR 0x09, CHR 0x0A, CHR 0x0B, CHR 0x0C, CHR 0x0D,
                          CHR 0x1C, CHR 0x1D, CHR 0x1E, CHR 0x1F, CHR 0x20,
                          CHR 0x85, CHR 0xA0]"
    unfolding isspace_def using inj_of_char [where ?'a = nat] by (simp only: inj_image_mem_iff)
  then show ?thesis by simp
qed

lemma isspace_lower_char: "isspace (lower_char c) = isspace c"
proof -
  have lt: "(of_char c :: nat) < 256" by (rule nat_of_char_less_256) 
  show ?thesis
    using lt by (auto simp: isspace_of_char lower_char_def Let_def)
qed

lemma py_lower_strip: "py_lower (py_strip s) = py_strip (py_lower s)"
  unfolding py_lower_def py_strip_def
  by (simp add: dropWhile_map rev_map comp_def isspace_lower_char)

lemma py_replace_absent:
  "old \<noteq> [] \<Longrightarrow> \<not> sublist old s \<Longrightarrow> py_replace old new s = s"
  by (induction s) (simp_all add: sublist_Cons_right)

lemma py_replace_prefix:
  "old \<noteq> [] \<Longrightarrow> prefix old s \<Longrightarrow>
   py_replace old new s = new @ py_replace old new (drop (length old) s)"
  by (cases s) simp_all

lemma py_replace_leading_only:
  assumes "\<not> sublist ''category:'' (if prefix ''category:'' s then drop (length ''category:'') s else s)"
  shows "py_replace ''category:'' [] s
     = (if prefix ''category:'' s then drop (length ''category:'') s else s)"
proof (cases "prefix ''category:'' s")
  case True
  with assms have "\<not> sublist ''category:'' (drop (length ''category:'') s)" by simp
  then have "py_replace ''category:'' [] (drop (length ''category:'') s) = drop (length ''category:'') s"
    by (intro py_replace_absent) simp_all
  with True py_replace_prefix [of "''category:''" s "[]"] show ?thesis by simp
next
  case False
  with assms have "\<not> sublist ''category:'' s" by simp
  then have "py_replace ''category:'' [] s = s"
    by (intro py_replace_absent) simp_all
  with False show ?thesis by simp
qed

section \<open>The normaliser\<close>

lemma normalize_label_first_token:
  "normalize_label raw =
     Inr (let token = first_token (py_replace ''category:'' [] (py_strip (py_lower raw)))
          in if token \<noteq> [] \<and> token \<in> set CATEGORIES then token else ''other'')"
proof -
  define s where "s = py_replace ''category:'' [] (py_lower (py_strip raw))"
  show ?thesis
  proof (cases "dropWhile isspace (py_strip s) = []")
    case True
    then have "py_split (py_strip s) = []" by (simp only: py_split_Nil_iff)
    moreover have "first_token s = []"
      using first_token_Nil [OF True] by (simp only: first_token_strip)
    ultimately show ?thesis
      unfolding normalize_label_def Let_def s_def [symmetric] py_lower_strip [symmetric]
      by simp
  next
    case False
    then have ne: "py_split (py_strip s) \<noteq> []" by (simp only: py_split_Nil_iff not_False_eq_True)
    have "py_split (py_strip s) ! 0 = first_token s"
      using py_split_first [OF False] by (simp only: first_token_strip)
    then have "py_getitem (py_split (py_strip s)) 0 = Inr (first_token s)"
      using ne by (simp add: py_getitem_def)
    then show ?thesis
      unfolding normalize_label_def Let_def s_def [symmetric] py_lower_strip [symmetric]
      using ne by (auto simp: CATEGORIES_def)
  qed
qed


lemma CATEGORIES_length: "length CATEGORIES = 21"
  by (simp add: CATEGORIES_def)

lemma CATEGORIES_distinct: "distinct CATEGORIES"
  by (simp add: CATEGORIES_def)

lemma other_in_CATEGORIES: "''other'' \<in> set CATEGORIES"
  by (simp add: CATEGORIES_def)

lemma normalize_label_in_CATEGORIES:
  "\<exists>c. normalize_label raw = Inr c \<and> c \<in> set CATEGORIES"
  by (simp add: normalize_label_first_token Let_def other_in_CATEGORIES)

lemma normalize_label_fixes_CATEGORIES:
  "\<forall>c \<in> set CATEGORIES. normalize_label c = Inr c"
  by code_simp

lemma classify_instruction_in_CATEGORIES: "classify_instruction reply \<in> set CATEGORIES"
proof (cases reply)
  case (Inl e)
  then show ?thesis by (simp add: classify_instruction_def other_in_CATEGORIES)
next
  case (Inr raw)
  then show ?thesis
    using normalize_label_in_CATEGORIES [of raw] by (auto simp: classify_instruction_def)
qed

text \<open>
  C1. Whatever the text of the response, the normalisation raises nothing and gives a
  member of \<open>CATEGORIES\<close>, a list of 21 different names of which \<open>other\<close> is one;
  so does \<open>classify_instruction\<close>, whatever the request gave. The empty text and a
  text of blanks give \<open>other\<close>.
\<close>

theorem normalizer_total_into_CATEGORIES:
  "(\<exists>c. normalize_label raw = Inr c \<and> c \<in> set CATEGORIES)
   \<and> classify_instruction reply \<in> set CATEGORIES
   \<and> length CATEGORIES = 21 \<and> distinct CATEGORIES \<and> ''other'' \<in> set CATEGORIES
   \<and> normalize_label [] = Inr ''other''
   \<and> normalize_label ''  '' = Inr ''other''"
proof -
  have "normalize_label [] = Inr ''other''" by code_simp
  moreover have "normalize_label ''  '' = Inr ''other''" by code_simp
  ultimately show ?thesis
    using normalize_label_in_CATEGORIES [of raw] classify_instruction_in_CATEGORIES [of reply]
    by (simp only: CATEGORIES_length CATEGORIES_distinct other_in_CATEGORIES simp_thms)
qed

text \<open>
  C5, as the code has it. The specification strips the marker at the leading position
  only; the code calls \<open>replace\<close>, which removes the marker wherever it stands. On
  the text \<open>hiscategory:tory\<close> the code finds the category \<open>history\<close>, and the
  algorithm of the specification finds no category.
\<close>

theorem normalizer_inner_marker_counterexample:
  "normalize_label ''hiscategory:tory'' = Inr ''history''
   \<and> spec_normalize ''hiscategory:tory'' = ''other''"
  by code_simp

text \<open>
  C5, amended. The normalisation lowercases and trims the text, removes every
  occurrence of the marker \<open>category:\<close>, takes the first whitespace-delimited token
  of what remains, and gives that token when there is one and it is in \<open>CATEGORIES\<close>,
  and \<open>other\<close> otherwise; it raises nothing. Where the marker does not occur again
  after the leading position, this is the result of stripping the leading marker only.
\<close>

theorem normalizer_removes_every_marker:
  "normalize_label raw =
     Inr (let token = first_token (py_replace ''category:'' [] (py_strip (py_lower raw)))
          in if token \<noteq> [] \<and> token \<in> set CATEGORIES then token else ''other'')
   \<and> (\<not> sublist ''category:''
          (if prefix ''category:'' (py_strip (py_lower raw))
           then drop (length ''category:'') (py_strip (py_lower raw))
           else py_strip (py_lower raw))
        \<longrightarrow> normalize_label raw = Inr (spec_normalize raw))"
proof (intro conjI impI)
  show "normalize_label raw =
     Inr (let token = first_token (py_replace ''category:'' [] (py_strip (py_lower raw)))
          in if token \<noteq> [] \<and> token \<in> set CATEGORIES then token else ''other'')"
    by (rule normalize_label_first_token)
next
  let ?s = "py_strip (py_lower raw)"
  assume "\<not> sublist ''category:''
          (if prefix ''category:'' ?s then drop (length ''category:'') ?s else ?s)"
  then have "py_replace ''category:'' [] ?s
      = (if prefix ''category:'' ?s then drop (length ''category:'') ?s else ?s)"
    by (rule py_replace_leading_only)
  then show "normalize_label raw = Inr (spec_normalize raw)"
    unfolding spec_normalize_def normalize_label_first_token Let_def by (simp only:)
qed

theorem normalizer_removes_every_marker_witness:
  "\<not> sublist ''category:'' '' history extra words''
   \<and> normalize_label ''Category: History extra words'' = Inr ''history''
   \<and> spec_normalize ''Category: History extra words'' = ''history''"
proof -
  have p: "py_strip (py_lower ''Category: History extra words'') = ''category: history extra words''"
    by code_simp
  have n: "\<not> sublist ''category:'' '' history extra words''" by code_simp
  have s: "spec_normalize ''Category: History extra words'' = ''history''" by code_simp
  have "\<not> sublist ''category:''
          (if prefix ''category:'' (py_strip (py_lower ''Category: History extra words''))
           then drop (length ''category:'') (py_strip (py_lower ''Category: History extra words''))
           else py_strip (py_lower ''Category: History extra words''))"
    unfolding p using n by simp
  with normalizer_removes_every_marker [of "''Category: History extra words''"]
  have "normalize_label ''Category: History extra words''
      = Inr (spec_normalize ''Category: History extra words'')"
    by blast
  with n s show ?thesis by simp
qed


text \<open>
  C10. Every name in \<open>CATEGORIES\<close> is in lower case, has no whitespace and does not
  hold the marker, and the normalisation gives it back; so the normalisation of a
  category that the normalisation gave is that category.
\<close>

theorem normalizer_identity_on_CATEGORIES:
  "(\<forall>c \<in> set CATEGORIES.
      py_lower c = c \<and> \<not> list_ex isspace c \<and> py_replace ''category:'' [] c = c
      \<and> normalize_label c = Inr c)
   \<and> (normalize_label raw = Inr c' \<longrightarrow> normalize_label c' = Inr c')"
proof -
  have "\<forall>c \<in> set CATEGORIES.
      py_lower c = c \<and> \<not> list_ex isspace c \<and> py_replace ''category:'' [] c = c"
    by code_simp
  moreover have "normalize_label raw = Inr c' \<longrightarrow> normalize_label c' = Inr c'"
    using normalize_label_in_CATEGORIES [of raw] normalize_label_fixes_CATEGORIES by auto
  ultimately show ?thesis
    using normalize_label_fixes_CATEGORIES by simp
qed

theorem normalizer_identity_on_CATEGORIES_witness:
  "''law'' \<in> set CATEGORIES \<and> normalize_label ''law'' = Inr ''law''
   \<and> normalize_label ''Category: History extra words'' = Inr ''history''
   \<and> normalize_label ''history'' = Inr ''history''"
proof -
  have m: "''law'' \<in> set CATEGORIES" by (simp add: CATEGORIES_def)
  have r: "normalize_label ''Category: History extra words'' = Inr ''history''" by code_simp
  show ?thesis
    using normalizer_identity_on_CATEGORIES [of "''Category: History extra words''" "''history''"] m r
    by blast
qed

section \<open>The retry loop of one example\<close>

lemma range_max_retries: "[0..<max_retries] = [0, 1, 2]"
  by (simp add: max_retries_def upt_rec)

lemma classify_record_cases:
  assumes run: "classify_record post example st = (cat', st')"
  shows "\<exists>new. calls st' = calls st @ new
      \<and> results st' = results st \<and> files st' = files st
      \<and> category_counts st' = category_counts st
      \<and> ((\<exists>c. new = [(attempt_request example 1, Inr c)]
               \<and> cat' = Some c \<and> failed_count st' = failed_count st)
        \<or> (\<exists>e1 c. new = [(attempt_request example 1, Inl e1), (attempt_request example 2, Inr c)]
               \<and> cat' = Some c \<and> failed_count st' = failed_count st)
        \<or> (\<exists>e1 e2 c. new = [(attempt_request example 1, Inl e1), (attempt_request example 2, Inl e2),
                             (attempt_request example 3, Inr c)]
               \<and> cat' = Some c \<and> failed_count st' = failed_count st)
        \<or> (\<exists>e1 e2 e3. new = [(attempt_request example 1, Inl e1), (attempt_request example 2, Inl e2),
                             (attempt_request example 3, Inl e3)]
               \<and> cat' = Some ''other'' \<and> failed_count st' = failed_count st + 1))"
  using run unfolding classify_record_def range_max_retries attempt_request_def
  by (auto simp: Let_def max_retries_def split: prod.splits sum.splits)

lemma normalize_label_InrD: "normalize_label raw = Inr c \<Longrightarrow> c \<in> set CATEGORIES"
  using normalize_label_in_CATEGORIES [of raw] by auto

lemma classify_record_category:
  assumes run: "classify_record post example st = (cat', st')"
  shows "\<exists>c \<in> set CATEGORIES. cat' = Some c"
  using run unfolding classify_record_def range_max_retries
  by (auto simp: Let_def max_retries_def other_in_CATEGORIES
           split: prod.splits sum.splits dest: normalize_label_InrD)

lemma classify_record_run:
  assumes run: "classify_record post example st = (cat', st')"
  shows "\<exists>new. calls st' = calls st @ new \<and> new \<noteq> [] \<and> length new \<le> 3
      \<and> map (\<lambda>a. timeout (fst a)) new = take (length new) [60, 120, 180]
      \<and> (\<forall>a \<in> set new. model (fst a) = ''qwen2.5:3b'' \<and> prompt (fst a) = build_prompt example)
      \<and> (\<forall>a \<in> set (butlast new). isl (snd a))
      \<and> (case snd (last new) of
            Inr c \<Rightarrow> cat' = Some c \<and> failed_count st' = failed_count st
          | Inl e \<Rightarrow> length new = 3 \<and> cat' = Some ''other''
                      \<and> failed_count st' = failed_count st + 1)
      \<and> results st' = results st \<and> files st' = files st
      \<and> category_counts st' = category_counts st"
proof -
  from classify_record_cases [OF run] obtain new where
    c: "calls st' = calls st @ new" and
    r: "results st' = results st" "files st' = files st" "category_counts st' = category_counts st" and
    d: "(\<exists>c. new = [(attempt_request example 1, Inr c)]
               \<and> cat' = Some c \<and> failed_count st' = failed_count st)
        \<or> (\<exists>e1 c. new = [(attempt_request example 1, Inl e1), (attempt_request example 2, Inr c)]
               \<and> cat' = Some c \<and> failed_count st' = failed_count st)
        \<or> (\<exists>e1 e2 c. new = [(attempt_request example 1, Inl e1), (attempt_request example 2, Inl e2),
                             (attempt_request example 3, Inr c)]
               \<and> cat' = Some c \<and> failed_count st' = failed_count st)
        \<or> (\<exists>e1 e2 e3. new = [(attempt_request example 1, Inl e1), (attempt_request example 2, Inl e2),
                             (attempt_request example 3, Inl e3)]
               \<and> cat' = Some ''other'' \<and> failed_count st' = failed_count st + 1)"
    by blast
  from d have "new \<noteq> [] \<and> length new \<le> 3
      \<and> map (\<lambda>a. timeout (fst a)) new = take (length new) [60, 120, 180]
      \<and> (\<forall>a \<in> set new. model (fst a) = ''qwen2.5:3b'' \<and> prompt (fst a) = build_prompt example)
      \<and> (\<forall>a \<in> set (butlast new). isl (snd a))
      \<and> (case snd (last new) of
            Inr c \<Rightarrow> cat' = Some c \<and> failed_count st' = failed_count st
          | Inl e \<Rightarrow> length new = 3 \<and> cat' = Some ''other''
                      \<and> failed_count st' = failed_count st + 1)"
    by (elim disjE exE conjE) (simp_all add: attempt_request_def)
  with c r show ?thesis by blast
qed

lemma process_example_run:
  assumes run: "process_example post i example st = st'"
  shows "\<exists>new c. calls st' = calls st @ new \<and> new \<noteq> [] \<and> length new \<le> 3
      \<and> map (\<lambda>a. timeout (fst a)) new = take (length new) [60, 120, 180]
      \<and> (\<forall>a \<in> set new. model (fst a) = ''qwen2.5:3b'' \<and> prompt (fst a) = build_prompt example)
      \<and> (\<forall>a \<in> set (butlast new). isl (snd a))
      \<and> (case snd (last new) of
            Inr c' \<Rightarrow> c = c' \<and> failed_count st' = failed_count st
          | Inl e \<Rightarrow> length new = 3 \<and> c = ''other''
                      \<and> failed_count st' = failed_count st + 1)
      \<and> c \<in> set CATEGORIES
      \<and> results st' = results st @
            [\<lparr>instruction = instruction example, input = input example,
              output_text = output_text example, category = Some c\<rparr>]
      \<and> files st' = files st @
            (if (i + 1) mod 500 = 0 then [(checkpoint_name (i + 1), results st')] else [])
      \<and> category_counts st' =
            (category_counts st)(Some c := category_counts st (Some c) + 1)"
proof -
  obtain cat1 st1 where r1: "classify_record post example st = (cat1, st1)"
    by (cases "classify_record post example st")
  from classify_record_category [OF r1] obtain c where
    c: "c \<in> set CATEGORIES" "cat1 = Some c" by blast
  from classify_record_run [OF r1] obtain new where
    n: "calls st1 = calls st @ new" "new \<noteq> []" "length new \<le> 3"
       "map (\<lambda>a. timeout (fst a)) new = take (length new) [60, 120, 180]"
       "\<forall>a \<in> set new. model (fst a) = ''qwen2.5:3b'' \<and> prompt (fst a) = build_prompt example"
       "\<forall>a \<in> set (butlast new). isl (snd a)"
       "case snd (last new) of
            Inr c \<Rightarrow> cat1 = Some c \<and> failed_count st1 = failed_count st
          | Inl e \<Rightarrow> length new = 3 \<and> cat1 = Some ''other''
                      \<and> failed_count st1 = failed_count st + 1"
       "results st1 = results st" "files st1 = files st"
       "category_counts st1 = category_counts st"
    by blast
  have l: "case snd (last new) of
            Inr c' \<Rightarrow> c = c' \<and> failed_count st1 = failed_count st
          | Inl e \<Rightarrow> length new = 3 \<and> c = ''other''
                      \<and> failed_count st1 = failed_count st + 1"
    using n(7) c(2) by (simp split: sum.splits)
  have s: "st' = (let st2 = st1\<lparr>results := results st1 @
                 [\<lparr>instruction = instruction example, input = input example,
                   output_text = output_text example, category = Some c\<rparr>]\<rparr>;
          st3 = st2\<lparr>category_counts := (category_counts st2)(Some c := category_counts st2 (Some c) + 1)\<rparr>
      in if (i + 1) mod 500 = 0
         then st3\<lparr>files := files st3 @ [(checkpoint_name (i + 1), results st3)]\<rparr>
         else st3)"
    using run r1 c(2) by (simp add: process_example_def Let_def)
  have "calls st' = calls st1" "failed_count st' = failed_count st1"
       "results st' = results st @
            [\<lparr>instruction = instruction example, input = input example,
              output_text = output_text example, category = Some c\<rparr>]"
       "files st' = files st @
            (if (i + 1) mod 500 = 0 then [(checkpoint_name (i + 1), results st')] else [])"
       "category_counts st' =
            (category_counts st)(Some c := category_counts st (Some c) + 1)"
    unfolding s using n(8,9,10) by (simp_all add: Let_def)
  note t = this
  have l': "case snd (last new) of
            Inr c' \<Rightarrow> c = c' \<and> failed_count st' = failed_count st
          | Inl e \<Rightarrow> length new = 3 \<and> c = ''other''
                      \<and> failed_count st' = failed_count st + 1"
    using l by (simp only: t(2))
  have "calls st' = calls st @ new" using t(1) n(1) by simp
  with n(2-6) l' c(1) t(3-5) show ?thesis
    by (intro exI [of _ new] exI [of _ c] conjI)
qed


lemma process_example_calls_unique:
  assumes "calls (process_example post i example st) = calls st @ new"
  shows "new \<noteq> [] \<and> length new \<le> 3
      \<and> map (\<lambda>a. timeout (fst a)) new = take (length new) [60, 120, 180]
      \<and> (\<forall>a \<in> set (butlast new). isl (snd a))
      \<and> (\<exists>c. (case snd (last new) of
            Inr c' \<Rightarrow> c = c' \<and> failed_count (process_example post i example st) = failed_count st
          | Inl e \<Rightarrow> length new = 3 \<and> c = ''other''
                      \<and> failed_count (process_example post i example st) = failed_count st + 1)
          \<and> results (process_example post i example st) = results st @
            [\<lparr>instruction = instruction example, input = input example,
              output_text = output_text example, category = Some c\<rparr>])"
proof -
  from process_example_run [OF refl, of post i example st] obtain new' c where
    n: "calls (process_example post i example st) = calls st @ new'" "new' \<noteq> []" "length new' \<le> 3"
      "map (\<lambda>a. timeout (fst a)) new' = take (length new') [60, 120, 180]"
      "\<forall>a \<in> set (butlast new'). isl (snd a)"
      "case snd (last new') of
            Inr c' \<Rightarrow> c = c' \<and> failed_count (process_example post i example st) = failed_count st
          | Inl e \<Rightarrow> length new' = 3 \<and> c = ''other''
                      \<and> failed_count (process_example post i example st) = failed_count st + 1"
      "results (process_example post i example st) = results st @
            [\<lparr>instruction = instruction example, input = input example,
              output_text = output_text example, category = Some c\<rparr>]"
    by blast
  from n(1) assms have "new' = new" by simp
  with n show ?thesis by blast
qed


text \<open>
  C4. Let \<open>new\<close> be the requests of one example with their outcomes. If the \<open>k\<close>-th
  (from 0) ended with a category, it is the last request of the example, and the entry
  appended to \<open>results\<close> has the fields of the example and that category.
\<close>

theorem first_success_ends_retries:
  assumes "calls (process_example post i example st) = calls st @ new"
    and "k < length new" and "snd (new ! k) = Inr c"
  shows "Suc k = length new
     \<and> results (process_example post i example st) = results st @
          [\<lparr>instruction = instruction example, input = input example,
            output_text = output_text example, category = Some c\<rparr>]"
proof -
  from process_example_calls_unique [OF assms(1)] obtain c' where
    b: "\<forall>a \<in> set (butlast new). isl (snd a)" and
    l: "case snd (last new) of
            Inr c'' \<Rightarrow> c' = c'' \<and> failed_count (process_example post i example st) = failed_count st
          | Inl e \<Rightarrow> length new = 3 \<and> c' = ''other''
                      \<and> failed_count (process_example post i example st) = failed_count st + 1" and
    r: "results (process_example post i example st) = results st @
            [\<lparr>instruction = instruction example, input = input example,
              output_text = output_text example, category = Some c'\<rparr>]"
    by blast
  have k: "Suc k = length new"
  proof (rule ccontr)
    assume "Suc k \<noteq> length new"
    with assms(2) have "k < length (butlast new)" by simp
    then have "butlast new ! k \<in> set (butlast new)" by (rule nth_mem)
    moreover have "butlast new ! k = new ! k"
      using \<open>k < length (butlast new)\<close> by (rule nth_butlast)
    ultimately have "isl (snd (new ! k))" using b by auto
    with assms(3) show False by simp
  qed
  then have "last new = new ! k"
    using assms(2) by (cases new rule: rev_cases) (auto simp: nth_append)
  with l assms(3) have "c' = c" by simp
  with k r show ?thesis by simp
qed

text \<open>
  C2. Let \<open>new\<close> be the requests of one example with their outcomes. If all of them
  ended with an exception, there are three, the entry appended to \<open>results\<close> has the
  category \<open>other\<close> and \<open>failed_count\<close> has grown by one. If one of them ended
  with a category, \<open>failed_count\<close> is as before, also when that category is
  \<open>other\<close>, as from the response \<open>banana\<close>.
\<close>

theorem exhausted_retries_count_one_failure:
  assumes "calls (process_example post i example st) = calls st @ new"
  shows "((\<forall>a \<in> set new. isl (snd a)) \<longrightarrow>
            length new = 3
            \<and> results (process_example post i example st) = results st @
                [\<lparr>instruction = instruction example, input = input example,
                  output_text = output_text example, category = Some ''other''\<rparr>]
            \<and> failed_count (process_example post i example st) = failed_count st + 1)
       \<and> ((\<exists>a \<in> set new. \<not> isl (snd a)) \<longrightarrow>
            failed_count (process_example post i example st) = failed_count st)"
proof -
  from process_example_calls_unique [OF assms] obtain c' where
    ne: "new \<noteq> []" and
    b: "\<forall>a \<in> set (butlast new). isl (snd a)" and
    l: "case snd (last new) of
            Inr c'' \<Rightarrow> c' = c'' \<and> failed_count (process_example post i example st) = failed_count st
          | Inl e \<Rightarrow> length new = 3 \<and> c' = ''other''
                      \<and> failed_count (process_example post i example st) = failed_count st + 1" and
    r: "results (process_example post i example st) = results st @
            [\<lparr>instruction = instruction example, input = input example,
              output_text = output_text example, category = Some c'\<rparr>]"
    by blast
  have s: "set new = insert (last new) (set (butlast new))"
    using ne by (cases new rule: rev_cases) auto
  show ?thesis
  proof (cases "snd (last new)")
    case (Inl e)
    then have "\<forall>a \<in> set new. isl (snd a)" using b s by auto
    with Inl l r show ?thesis by auto
  next
    case (Inr c'')
    then have "\<not> (\<forall>a \<in> set new. isl (snd a))" using s by auto
    with Inr l show ?thesis by auto
  qed
qed


theorem first_success_ends_retries_witness:
  "calls (process_example scripted 0 sample
            (initial_state [Inl RequestError, Inr ''Category: Law'', Inr ''history'']))
     = [(\<lparr>model = ''qwen2.5:3b'', prompt = build_prompt sample, timeout = 60\<rparr>, Inl RequestError),
        (\<lparr>model = ''qwen2.5:3b'', prompt = build_prompt sample, timeout = 120\<rparr>, Inr ''law'')]
   \<and> results (process_example scripted 0 sample
            (initial_state [Inl RequestError, Inr ''Category: Law'', Inr ''history'']))
     = [\<lparr>instruction = instruction sample, input = input sample,
         output_text = output_text sample, category = Some ''law''\<rparr>]"
proof -
  let ?st = "initial_state
      ([Inl RequestError, Inr ''Category: Law'', Inr ''history''] :: (py_exception + string) list)"
  let ?new = "[(\<lparr>model = ''qwen2.5:3b'', prompt = build_prompt sample, timeout = 60\<rparr>, Inl RequestError),
        (\<lparr>model = ''qwen2.5:3b'', prompt = build_prompt sample, timeout = 120\<rparr>, Inr ''law'')]"
  have e: "calls (process_example scripted 0 sample ?st) = calls ?st @ ?new"
    by code_simp
  have i: "calls ?st = []" "results ?st = []"
    by (simp_all add: initial_state_def)
  from first_success_ends_retries [OF e, of 1 "''law''"] e i show ?thesis
    by simp
qed

theorem exhausted_retries_count_one_failure_witness:
  "length (calls (process_example scripted 0 sample
             (initial_state [Inl RequestError, Inl ResponseError, Inl RequestError]))) = 3
   \<and> results (process_example scripted 0 sample
             (initial_state [Inl RequestError, Inl ResponseError, Inl RequestError]))
     = [\<lparr>instruction = instruction sample, input = input sample,
         output_text = output_text sample, category = Some ''other''\<rparr>]
   \<and> failed_count (process_example scripted 0 sample
             (initial_state [Inl RequestError, Inl ResponseError, Inl RequestError])) = 1
   \<and> results (process_example scripted 0 sample (initial_state [Inr ''banana'']))
     = [\<lparr>instruction = instruction sample, input = input sample,
         output_text = output_text sample, category = Some ''other''\<rparr>]
   \<and> failed_count (process_example scripted 0 sample (initial_state [Inr ''banana''])) = 0"
proof -
  let ?st = "initial_state
      ([Inl RequestError, Inl ResponseError, Inl RequestError] :: (py_exception + string) list)"
  let ?new = "[(\<lparr>model = ''qwen2.5:3b'', prompt = build_prompt sample, timeout = 60\<rparr>,
                 Inl RequestError :: py_exception + string),
        (\<lparr>model = ''qwen2.5:3b'', prompt = build_prompt sample, timeout = 120\<rparr>, Inl ResponseError),
        (\<lparr>model = ''qwen2.5:3b'', prompt = build_prompt sample, timeout = 180\<rparr>, Inl RequestError)]"
  let ?st2 = "initial_state ([Inr ''banana''] :: (py_exception + string) list)"
  let ?new2 = "[(\<lparr>model = ''qwen2.5:3b'', prompt = build_prompt sample, timeout = 60\<rparr>,
                 Inr ''other'' :: py_exception + string)]"
  have e: "calls (process_example scripted 0 sample ?st) = calls ?st @ ?new"
    by code_simp
  have e2: "calls (process_example scripted 0 sample ?st2) = calls ?st2 @ ?new2"
    by code_simp
  have r2: "results (process_example scripted 0 sample ?st2)
     = [\<lparr>instruction = instruction sample, input = input sample,
         output_text = output_text sample, category = Some ''other''\<rparr>]"
    by code_simp
  have i: "calls ?st = []" "results ?st = []" "failed_count ?st = 0" "failed_count ?st2 = 0"
    by (simp_all add: initial_state_def)
  have a: "\<forall>a \<in> set ?new. isl (snd a)" by simp
  have a2: "\<exists>a \<in> set ?new2. \<not> isl (snd a)" by simp
  from exhausted_retries_count_one_failure [OF e, THEN conjunct1, THEN mp, OF a]
  have "length ?new = 3
      \<and> results (process_example scripted 0 sample ?st) = results ?st @
                [\<lparr>instruction = instruction sample, input = input sample,
                  output_text = output_text sample, category = Some ''other''\<rparr>]
      \<and> failed_count (process_example scripted 0 sample ?st) = failed_count ?st + 1"
    .
  moreover from exhausted_retries_count_one_failure [OF e2, THEN conjunct2, THEN mp, OF a2]
  have "failed_count (process_example scripted 0 sample ?st2) = failed_count ?st2"
    .
  moreover have "length (calls (process_example scripted 0 sample ?st)) = 3"
    by (simp only: e i append_Nil) simp
  ultimately show ?thesis
    by (simp only: i r2 append_Nil) simp
qed


section \<open>The batch, its files and the program\<close>

lemma batch_loop_results:
  "\<exists>rs. results (batch_loop post i ds st) = results st @ rs
     \<and> map (\<lambda>r. \<lparr>instruction = instruction r, input = input r, output_text = output_text r\<rparr>) rs = ds
     \<and> (\<forall>r \<in> set rs. \<exists>c \<in> set CATEGORIES. category r = Some c)"
proof (induction ds arbitrary: i st)
  case Nil
  then show ?case by simp
next
  case (Cons example rest)
  let ?st1 = "process_example post i example st"
  from process_example_run [OF refl, of post i example st] obtain c where
    c: "c \<in> set CATEGORIES" and
    r: "results ?st1 = results st @
            [\<lparr>instruction = instruction example, input = input example,
              output_text = output_text example, category = Some c\<rparr>]"
    by blast
  from Cons.IH [of "Suc i" ?st1] obtain rs where
    rs: "results (batch_loop post (Suc i) rest ?st1) = results ?st1 @ rs"
      "map (\<lambda>r. \<lparr>instruction = instruction r, input = input r, output_text = output_text r\<rparr>) rs = rest"
      "\<forall>r \<in> set rs. \<exists>c \<in> set CATEGORIES. category r = Some c"
    by blast
  show ?case
    using c r rs
    by (intro exI [of _ "\<lparr>instruction = instruction example, input = input example,
              output_text = output_text example, category = Some c\<rparr> # rs"]) simp
qed

lemma batch_loop_files:
  "length (results st) = i \<Longrightarrow>
   files (batch_loop post i ds st) = files st @
     map (\<lambda>m. (checkpoint_name m, take m (results (batch_loop post i ds st))))
       (filter (\<lambda>m. m mod 500 = 0) [Suc i..<Suc (i + length ds)])"
proof (induction ds arbitrary: i st)
  case Nil
  then show ?case by simp
next
  case (Cons example rest)
  let ?st1 = "process_example post i example st"
  let ?fin = "batch_loop post (Suc i) rest ?st1"
  from process_example_run [OF refl, of post i example st] obtain c where
    r: "results ?st1 = results st @
            [\<lparr>instruction = instruction example, input = input example,
              output_text = output_text example, category = Some c\<rparr>]" and
    f: "files ?st1 = files st @
            (if (i + 1) mod 500 = 0 then [(checkpoint_name (i + 1), results ?st1)] else [])"
    by blast
  have len: "length (results ?st1) = Suc i"
    using r Cons.prems by simp
  from batch_loop_results [of post "Suc i" rest ?st1] obtain rs where
    rs: "results ?fin = results ?st1 @ rs" by blast
  have tk: "take (Suc i) (results ?fin) = results ?st1"
    using rs len by simp
  have u: "[Suc i..<Suc (i + length (example # rest))]
      = Suc i # [Suc (Suc i)..<Suc (Suc i + length rest)]"
  proof -
    have "Suc i < Suc (i + length (example # rest))" by simp
    from upt_conv_Cons [OF this] show ?thesis by (simp del: upt_Suc)
  qed
  have "files ?fin = files ?st1 @
     map (\<lambda>m. (checkpoint_name m, take m (results ?fin)))
       (filter (\<lambda>m. m mod 500 = 0) [Suc (Suc i)..<Suc (Suc i + length rest)])"
    using len by (rule Cons.IH)
  then have "files ?fin = files st @
     map (\<lambda>m. (checkpoint_name m, take m (results ?fin)))
       (filter (\<lambda>m. m mod 500 = 0) (Suc i # [Suc (Suc i)..<Suc (Suc i + length rest)]))"
    using f tk by (simp del: upt_Suc)
  then show ?case
    unfolding u by (simp only: batch_loop.simps)
qed

lemma multiples_of_500:
  "filter (\<lambda>m. m mod 500 = 0) [1..<Suc N] = map (\<lambda>j. 500 * j) [1..<Suc (N div 500)]"
proof (induction N)
  case 0
  then show ?case by simp
next
  case (Suc N)
  have u: "[1..<Suc (Suc N)] = [1..<Suc N] @ [Suc N]"
    by (rule upt_Suc_append) simp
  show ?case
  proof (cases "Suc N mod 500 = 0")
    case True
    then have d: "Suc N div 500 = Suc (N div 500)" by (simp add: div_Suc)
    have "500 * (Suc N div 500) = Suc N" using True by (simp add: mod_eq_0_iff_dvd)
    with d have m: "500 * Suc (N div 500) = Suc N" by simp
    have v: "[1..<Suc (Suc (N div 500))] = [1..<Suc (N div 500)] @ [Suc (N div 500)]"
      by (rule upt_Suc_append) simp
    have "filter (\<lambda>m. m mod 500 = 0) [1..<Suc (Suc N)]
        = filter (\<lambda>m. m mod 500 = 0) [1..<Suc N] @ [Suc N]"
      unfolding u using True by simp
    also have "\<dots> = map (\<lambda>j. 500 * j) [1..<Suc (N div 500)] @ [500 * Suc (N div 500)]"
      by (simp only: Suc m)
    also have "\<dots> = map (\<lambda>j. 500 * j) [1..<Suc (Suc (N div 500))]"
      unfolding v by simp
    finally show ?thesis by (simp only: d)
  next
    case False
    then have d: "Suc N div 500 = N div 500" by (simp add: div_Suc)
    have "filter (\<lambda>m. m mod 500 = 0) [1..<Suc (Suc N)]
        = filter (\<lambda>m. m mod 500 = 0) [1..<Suc N]"
      unfolding u using False by simp
    then show ?thesis by (simp only: Suc d)
  qed
qed

lemma dict_append_map:
  "distinct (map fst d) \<Longrightarrow> k \<in> fst ` set d \<Longrightarrow>
   dict_append d k x = Inr (map (\<lambda>(c, items). (c, if c = k then items @ [x] else items)) d)"
proof (induction d)
  case Nil
  then show ?case by simp
next
  case (Cons p d)
  obtain k' items where p: "p = (k', items)" by (cases p)
  show ?case
  proof (cases "k' = k")
    case True
    then have "k \<notin> fst ` set d" using Cons.prems(1) p by auto
    then have "map (\<lambda>(c, items). (c, if c = k then items @ [x] else items)) d = d"
      by (induction d) auto
    with True p show ?thesis by simp
  next
    case False
    then have "k \<in> fst ` set d" using Cons.prems(2) p by auto
    with Cons False p show ?thesis by simp
  qed
qed

lemma group_items_map:
  "distinct (map fst d) \<Longrightarrow> \<forall>r \<in> set rs. \<exists>c \<in> fst ` set d. category r = Some c \<Longrightarrow>
   group_items d rs =
     Inr (map (\<lambda>(c, items). (c, items @ filter (\<lambda>r. category r = Some c) rs)) d)"
proof (induction rs arbitrary: d)
  case Nil
  then show ?case by simp
next
  case (Cons item rs)
  from Cons.prems(2) obtain k where k: "k \<in> fst ` set d" "category item = Some k" by auto
  let ?d' = "map (\<lambda>(c, items). (c, if c = k then items @ [item] else items)) d"
  have a: "dict_append d k item = Inr ?d'"
    using Cons.prems(1) k(1) by (rule dict_append_map)
  have f: "map fst ?d' = map fst d" by (induction d) auto
  then have s: "fst ` set ?d' = fst ` set d" by (metis list.set_map)
  have "group_items ?d' rs =
     Inr (map (\<lambda>(c, items). (c, items @ filter (\<lambda>r. category r = Some c) rs)) ?d')"
    using Cons.prems by (intro Cons.IH) (simp_all only: f s list.set_intros, auto)
  then show ?case
    using k(2) a by (auto simp: case_prod_beta)
qed


lemma category_files_map:
  "category_files (map (\<lambda>c. (c, F c)) cs)
     = map (\<lambda>c. (category_file_name c, F c)) (filter (\<lambda>c. F c \<noteq> []) cs)"
  by (induction cs) (simp_all add: category_files_def)

lemma classify_alpaca_dataset_run:
  "\<exists>rs st. classify_alpaca_dataset post dataset w = (Inr rs, st)
     \<and> results st = rs
     \<and> map (\<lambda>r. \<lparr>instruction = instruction r, input = input r, output_text = output_text r\<rparr>) rs
         = dataset
     \<and> (\<forall>r \<in> set rs. \<exists>c \<in> set CATEGORIES. category r = Some c)
     \<and> group_items (map (\<lambda>cat. (cat, [])) CATEGORIES) rs
         = Inr (map (\<lambda>c. (c, filter (\<lambda>r. category r = Some c) rs)) CATEGORIES)
     \<and> files st =
         map (\<lambda>j. (checkpoint_name (500 * j), take (500 * j) rs))
           [1..<Suc (length dataset div 500)]
         @ [(final_name, rs)]
         @ map (\<lambda>c. (category_file_name c, filter (\<lambda>r. category r = Some c) rs))
             (filter (\<lambda>c. filter (\<lambda>r. category r = Some c) rs \<noteq> []) CATEGORIES)"
proof -
  let ?st1 = "batch_loop post 0 dataset (initial_state w)"
  let ?F = "\<lambda>rs c. filter (\<lambda>r. category r = Some c) rs"
  from batch_loop_results [of post 0 dataset "initial_state w"] obtain rs where
    rs: "results ?st1 = rs"
      "map (\<lambda>r. \<lparr>instruction = instruction r, input = input r, output_text = output_text r\<rparr>) rs
         = dataset"
      "\<forall>r \<in> set rs. \<exists>c \<in> set CATEGORIES. category r = Some c"
    by (auto simp: initial_state_def)
  have i: "files (initial_state w) = []" "length (results (initial_state w)) = 0"
    by (simp_all add: initial_state_def)
  from batch_loop_files [OF i(2), of post dataset]
  have "files ?st1 =
     map (\<lambda>m. (checkpoint_name m, take m rs))
       (filter (\<lambda>m. m mod 500 = 0) [1..<Suc (length dataset)])"
    by (simp add: rs(1) i(1) del: upt_Suc)
  then have f: "files ?st1 =
     map (\<lambda>j. (checkpoint_name (500 * j), take (500 * j) rs)) [1..<Suc (length dataset div 500)]"
    by (simp only: multiples_of_500 map_map comp_def)
  have d: "distinct (map fst (map (\<lambda>cat. (cat, [] :: classified_record list)) CATEGORIES))"
    by (simp add: comp_def CATEGORIES_distinct)
  have m: "\<forall>r \<in> set rs. \<exists>c \<in> fst ` set (map (\<lambda>cat. (cat, [] :: classified_record list)) CATEGORIES).
      category r = Some c"
    using rs(3) by (simp add: image_image)
  have g: "group_items (map (\<lambda>cat. (cat, [])) CATEGORIES) rs
         = Inr (map (\<lambda>c. (c, ?F rs c)) CATEGORIES)"
    using group_items_map [OF d m] by (simp add: comp_def)
  have "classify_alpaca_dataset post dataset w =
      (Inr rs, ?st1\<lparr>files := (files ?st1 @ [(final_name, rs)])
          @ category_files (map (\<lambda>c. (c, ?F rs c)) CATEGORIES)\<rparr>)"
    unfolding classify_alpaca_dataset_def Let_def by (simp add: rs(1) g)
  then show ?thesis
    using rs g f by (simp add: category_files_map del: upt_Suc)
qed

text \<open>
  C6. \<open>classify_alpaca_dataset\<close> returns \<open>results\<close> and raises nothing; the list
  has as many entries as the dataset, and dropping the category of every entry gives
  the dataset back, so the entries stand in the order of the examples and carry their
  \<open>instruction\<close>, \<open>input\<close> and \<open>output\<close> unchanged.
\<close>

theorem batch_output_matches_input:
  "\<exists>rs st. classify_alpaca_dataset post dataset w = (Inr rs, st)
     \<and> results st = rs
     \<and> length rs = length dataset
     \<and> map (\<lambda>r. \<lparr>instruction = instruction r, input = input r, output_text = output_text r\<rparr>) rs
         = dataset"
proof -
  from classify_alpaca_dataset_run [of post dataset w] obtain rs st where
    r: "classify_alpaca_dataset post dataset w = (Inr rs, st)" "results st = rs"
     "map (\<lambda>r. \<lparr>instruction = instruction r, input = input r, output_text = output_text r\<rparr>) rs
         = dataset"
    by blast
  from r(3) have "length rs = length dataset" by (metis length_map)
  with r show ?thesis by blast
qed

text \<open>
  C7. For a dataset of \<open>N\<close> examples the first \<open>N div 500\<close> files written are the
  checkpoints numbered 500, 1000, ... in this order, the checkpoint numbered \<open>m\<close>
  holding the first \<open>m\<close> entries of \<open>results\<close>, \<open>m\<close> of them; the file written next
  is the final one, with all of \<open>results\<close>. The loop body of the example at index
  \<open>i\<close> writes the checkpoint numbered \<open>i + 1\<close>, with the results so far, when
  \<open>i + 1\<close> is a multiple of 500, and writes nothing otherwise.
\<close>

theorem checkpoints_every_500:
  "(\<exists>rs st. classify_alpaca_dataset post dataset w = (Inr rs, st)
      \<and> length rs = length dataset
      \<and> take (Suc (length dataset div 500)) (files st) =
          map (\<lambda>j. (checkpoint_name (500 * j), take (500 * j) rs))
            [1..<Suc (length dataset div 500)]
          @ [(final_name, rs)]
      \<and> map (\<lambda>f. length (snd f)) (take (length dataset div 500) (files st)) =
          map (\<lambda>j. 500 * j) [1..<Suc (length dataset div 500)])
   \<and> files (process_example post i example s) = files s @
        (if (i + 1) mod 500 = 0
         then [(checkpoint_name (i + 1), results (process_example post i example s))] else [])"
proof -
  let ?n = "length dataset div 500"
  from classify_alpaca_dataset_run [of post dataset w] obtain rs st where
    r: "classify_alpaca_dataset post dataset w = (Inr rs, st)"
     "map (\<lambda>r. \<lparr>instruction = instruction r, input = input r, output_text = output_text r\<rparr>) rs
         = dataset"
     "files st =
         map (\<lambda>j. (checkpoint_name (500 * j), take (500 * j) rs)) [1..<Suc ?n]
         @ [(final_name, rs)]
         @ map (\<lambda>c. (category_file_name c, filter (\<lambda>r. category r = Some c) rs))
             (filter (\<lambda>c. filter (\<lambda>r. category r = Some c) rs \<noteq> []) CATEGORIES)"
    by blast
  from r(2) have len: "length rs = length dataset" by (metis length_map)
  have l: "length (map (\<lambda>j. (checkpoint_name (500 * j), take (500 * j) rs)) [1..<Suc ?n]) = ?n"
    by simp
  have t1: "take (Suc ?n) (files st) =
          map (\<lambda>j. (checkpoint_name (500 * j), take (500 * j) rs)) [1..<Suc ?n]
          @ [(final_name, rs)]"
    unfolding r(3) using l by (simp del: upt_Suc)
  have t0: "take ?n (files st) =
          map (\<lambda>j. (checkpoint_name (500 * j), take (500 * j) rs)) [1..<Suc ?n]"
    unfolding r(3) using l by (simp del: upt_Suc)
  have "\<And>j. j \<in> set [1..<Suc ?n] \<Longrightarrow> length (take (500 * j) rs) = 500 * j"
  proof -
    fix j assume "j \<in> set [1..<Suc ?n]"
    then have "j \<le> ?n" by (auto simp del: upt_Suc)
    then have "500 * j \<le> 500 * ?n" by simp
    also have "\<dots> \<le> length dataset" by simp
    finally show "length (take (500 * j) rs) = 500 * j" using len by simp
  qed
  then have t2: "map (\<lambda>f. length (snd f)) (take ?n (files st)) = map (\<lambda>j. 500 * j) [1..<Suc ?n]"
    unfolding t0 by (simp del: upt_Suc)
  from process_example_run [OF refl, of post i example s]
  have p: "files (process_example post i example s) = files s @
        (if (i + 1) mod 500 = 0
         then [(checkpoint_name (i + 1), results (process_example post i example s))] else [])"
    by blast
  from r(1) len t1 t2 p show ?thesis by blast
qed

text \<open>
  C8. Every entry of \<open>results\<close> has a category of \<open>CATEGORIES\<close>, so the grouping
  raises no \<open>KeyError\<close>; the dict it fills has the names of \<open>CATEGORIES\<close> as its
  keys, in that order, each with the entries of that category in the order of
  \<open>results\<close>. The files written after the final one are one for every name whose
  list is not empty, in the order of \<open>CATEGORIES\<close>, each holding that list.
\<close>

theorem partition_by_category:
  "\<exists>rs st. classify_alpaca_dataset post dataset w = (Inr rs, st)
     \<and> (\<forall>r \<in> set rs. \<exists>c \<in> set CATEGORIES. category r = Some c)
     \<and> group_items (map (\<lambda>cat. (cat, [])) CATEGORIES) rs
         = Inr (map (\<lambda>c. (c, filter (\<lambda>r. category r = Some c) rs)) CATEGORIES)
     \<and> drop (Suc (length dataset div 500)) (files st) =
         map (\<lambda>c. (category_file_name c, filter (\<lambda>r. category r = Some c) rs))
           (filter (\<lambda>c. filter (\<lambda>r. category r = Some c) rs \<noteq> []) CATEGORIES)"
proof -
  let ?n = "length dataset div 500"
  from classify_alpaca_dataset_run [of post dataset w] obtain rs st where
    r: "classify_alpaca_dataset post dataset w = (Inr rs, st)"
     "\<forall>r \<in> set rs. \<exists>c \<in> set CATEGORIES. category r = Some c"
     "group_items (map (\<lambda>cat. (cat, [])) CATEGORIES) rs
         = Inr (map (\<lambda>c. (c, filter (\<lambda>r. category r = Some c) rs)) CATEGORIES)"
     "files st =
         map (\<lambda>j. (checkpoint_name (500 * j), take (500 * j) rs)) [1..<Suc ?n]
         @ [(final_name, rs)]
         @ map (\<lambda>c. (category_file_name c, filter (\<lambda>r. category r = Some c) rs))
             (filter (\<lambda>c. filter (\<lambda>r. category r = Some c) rs \<noteq> []) CATEGORIES)"
    by blast
  have l: "length (map (\<lambda>j. (checkpoint_name (500 * j), take (500 * j) rs)) [1..<Suc ?n]) = ?n"
    by simp
  have "drop (Suc ?n) (files st) =
         map (\<lambda>c. (category_file_name c, filter (\<lambda>r. category r = Some c) rs))
           (filter (\<lambda>c. filter (\<lambda>r. category r = Some c) rs \<noteq> []) CATEGORIES)"
    unfolding r(4) using l by (simp del: upt_Suc)
  with r(1-3) show ?thesis by blast
qed

text \<open>
  C9. When the \<open>requests.get\<close> of the start raises, the program ends with
  \<open>exit(1)\<close>: nothing was sent to the model, no file was written and \<open>results\<close> is
  empty. When it returns, \<open>classify_alpaca_dataset\<close> runs and returns a result for
  every example.
\<close>

theorem unreachable_endpoint_aborts:
  "(probe w = (Inl e, w') \<longrightarrow>
      main probe post dataset w = (SystemExit 1, initial_state w')
      \<and> calls (snd (main probe post dataset w)) = []
      \<and> files (snd (main probe post dataset w)) = []
      \<and> results (snd (main probe post dataset w)) = [])
   \<and> (probe w = (Inr u, w') \<longrightarrow>
      (\<exists>rs st. classify_alpaca_dataset post dataset w' = (Inr rs, st)
         \<and> main probe post dataset w = (Returned rs, st)
         \<and> length rs = length dataset))"
proof -
  from classify_alpaca_dataset_run [of post dataset w'] obtain rs st where
    r: "classify_alpaca_dataset post dataset w' = (Inr rs, st)"
     "map (\<lambda>r. \<lparr>instruction = instruction r, input = input r, output_text = output_text r\<rparr>) rs
         = dataset"
    by blast
  from r(2) have "length rs = length dataset" by (metis length_map)
  with r(1) show ?thesis
    by (auto simp: main_def initial_state_def)
qed


theorem partition_by_category_witness:
  "fst (classify_alpaca_dataset scripted [sample, sample]
          [Inl RequestError, Inr ''Category: Law'', Inr ''banana''])
     = Inr [\<lparr>instruction = instruction sample, input = input sample,
              output_text = output_text sample, category = Some ''law''\<rparr>,
            \<lparr>instruction = instruction sample, input = input sample,
              output_text = output_text sample, category = Some ''other''\<rparr>]
   \<and> drop (Suc (length [sample, sample] div 500))
        (files (snd (classify_alpaca_dataset scripted [sample, sample]
           [Inl RequestError, Inr ''Category: Law'', Inr ''banana''])))
     = [(''alpaca_law.json'',
           [\<lparr>instruction = instruction sample, input = input sample,
              output_text = output_text sample, category = Some ''law''\<rparr>]),
        (''alpaca_other.json'',
           [\<lparr>instruction = instruction sample, input = input sample,
              output_text = output_text sample, category = Some ''other''\<rparr>])]"
proof -
  let ?w = "[Inl RequestError, Inr ''Category: Law'', Inr ''banana''] :: (py_exception + string) list"
  let ?r1 = "\<lparr>instruction = instruction sample, input = input sample,
              output_text = output_text sample, category = Some ''law''\<rparr>"
  let ?r2 = "\<lparr>instruction = instruction sample, input = input sample,
              output_text = output_text sample, category = Some ''other''\<rparr>"
  have e: "fst (classify_alpaca_dataset scripted [sample, sample] ?w) = Inr [?r1, ?r2]"
    by code_simp
  have v: "map (\<lambda>c. (category_file_name c, filter (\<lambda>r. category r = Some c) [?r1, ?r2]))
             (filter (\<lambda>c. filter (\<lambda>r. category r = Some c) [?r1, ?r2] \<noteq> []) CATEGORIES)
      = [(''alpaca_law.json'', [?r1]), (''alpaca_other.json'', [?r2])]"
    by code_simp
  from partition_by_category [of scripted "[sample, sample]" ?w] obtain rs st where
    r: "classify_alpaca_dataset scripted [sample, sample] ?w = (Inr rs, st)"
       "drop (Suc (length [sample, sample] div 500)) (files st) =
         map (\<lambda>c. (category_file_name c, filter (\<lambda>r. category r = Some c) rs))
           (filter (\<lambda>c. filter (\<lambda>r. category r = Some c) rs \<noteq> []) CATEGORIES)"
    by blast
  from r(1) e have "rs = [?r1, ?r2]" by simp
  with r(2) v have "drop (Suc (length [sample, sample] div 500)) (files st)
      = [(''alpaca_law.json'', [?r1]), (''alpaca_other.json'', [?r2])]"
    by (simp only:)
  with r(1) e show ?thesis by (simp only: snd_conv) 
qed

theorem unreachable_endpoint_aborts_witness:
  "main (\<lambda>w. (Inl RequestError, w)) scripted [sample] [Inr ''law'']
     = (SystemExit 1, initial_state [Inr ''law''])
   \<and> fst (main (\<lambda>w. (Inr (), w)) scripted [sample] [Inr ''law''])
     = Returned [\<lparr>instruction = instruction sample, input = input sample,
              output_text = output_text sample, category = Some ''law''\<rparr>]"
proof -
  let ?w = "[Inr ''law''] :: (py_exception + string) list"
  let ?down = "\<lambda>w :: (py_exception + string) list. (Inl RequestError :: py_exception + unit, w)"
  let ?up = "\<lambda>w :: (py_exception + string) list. (Inr () :: py_exception + unit, w)"
  let ?r1 = "\<lparr>instruction = instruction sample, input = input sample,
              output_text = output_text sample, category = Some ''law''\<rparr>"
  have d: "?down ?w = (Inl RequestError, ?w)" by simp
  have u: "?up ?w = (Inr (), ?w)" by simp
  have e: "fst (classify_alpaca_dataset scripted [sample] ?w) = Inr [?r1]"
    by code_simp
  from unreachable_endpoint_aborts [of ?down ?w RequestError ?w scripted "[sample]", THEN conjunct1, THEN mp, OF d]
  have a: "main ?down scripted [sample] ?w = (SystemExit 1, initial_state ?w)"
    by (rule conjunct1)
  from unreachable_endpoint_aborts [of ?up ?w _ ?w scripted "[sample]" "()", THEN conjunct2, THEN mp, OF u]
  obtain rs st where
    r: "classify_alpaca_dataset scripted [sample] ?w = (Inr rs, st)"
       "main ?up scripted [sample] ?w = (Returned rs, st)"
    by blast
  from r(1) e have "rs = [?r1]" by simp
  with r(2) a show ?thesis by simp
qed


end
